theory Spec2Isabelle
  imports Main "HOL-Library.Word"
begin

section \<open>Values, rows and errors\<close>

text \<open>
  Go errors are values of an open interface. The ones the two files create or compare
  against are constructors of their own; \<open>ErrOther\<close> stands for any error value made
  elsewhere (a child's evaluation failure, a conversion failure of the type system, an
  iterator failure). \<open>Panic\<close> is a run-time panic of the Go program (an index or slice
  bound out of range, a failed type assertion, a method call on a nil interface).
\<close>

datatype error =
    EOF
  | ErrInvalidArgumentNumber string nat
  | ErrInvalidType string
  | ErrOther string
  | Panic string

text \<open>
  \<open>time.Time\<close> is a type of the Go standard library. Only its \<open>Year()\<close> method is
  used, so a timestamp is represented by its calendar fields and \<open>Time_Year\<close> is the
  method.
\<close>

datatype Time = Time (Time_Year: int) (Time_Month: nat) (Time_Day: nat)

text \<open>
  The dynamically typed value domain (\<open>interface{}\<close>): \<open>VNil\<close> is the nil interface.
  A Go \<open>string\<close> and a \<open>[]byte\<close> are both byte sequences; an Isabelle \<open>char\<close> is one
  byte.
\<close>

datatype Value =
    VNil
  | VBool bool
  | VInt32 "32 word"
  | VInt64 "64 word"
  | VText string
  | VBlob string
  | VTime Time

text \<open>
  \<open>sql.Row\<close> is the slice type \<open>[]interface{}\<close>. An expression only reads the row it
  is given, so for evaluation a row is the sequence of its values, \<open>None\<close> being the nil
  slice. The cross join appends to rows, and there a row is a slice on a backing array
  (see below).
\<close>

type_synonym Row = "Value list option"

section \<open>Slices and their backing arrays\<close>

text \<open>
  In the cross join a row is a Go slice (\<open>sql.Row\<close> is \<open>[]interface{}\<close>): either nil, or
  a reference to a backing array together with a length and a capacity. \<open>append\<close>
  writes into the backing array when the capacity allows it, so two slices on one array
  see each other's writes. The backing arrays are therefore kept in an explicit heap: an
  array is the list of its elements, and its address is its index in the heap. A slice
  here starts at the first element of its array.
\<close>

type_synonym heap = "Value list list"

type_synonym slice = "(nat \<times> nat \<times> nat) option"

definition slice_len :: "slice \<Rightarrow> nat" where
  "slice_len s = (case s of None \<Rightarrow> 0 | Some (a, n, c) \<Rightarrow> n)"

definition slice_cap :: "slice \<Rightarrow> nat" where
  "slice_cap s = (case s of None \<Rightarrow> 0 | Some (a, n, c) \<Rightarrow> c)"

text \<open>The elements a slice holds in a given heap.\<close>

definition slice_read :: "heap \<Rightarrow> slice \<Rightarrow> Value list" where
  "slice_read h s = (case s of None \<Rightarrow> [] | Some (a, n, c) \<Rightarrow> take n (h ! a))"

text \<open>
  A slice refers to an array of the heap and stays within it.
\<close>

definition slice_ok :: "heap \<Rightarrow> slice \<Rightarrow> bool" where
  "slice_ok h s =
     (case s of None \<Rightarrow> True | Some (a, n, c) \<Rightarrow> a < length h \<and> n \<le> c \<and> c \<le> length (h ! a))"

text \<open>
  \<open>append(s, t...)\<close>, as the Go language specification gives it. The elements of \<open>t\<close>
  are read first. With no element to add, \<open>s\<close> is returned as it is (nil stays nil).
  When the capacity of \<open>s\<close> suffices, the elements are written into the backing array of
  \<open>s\<close> after its length, and the result is a longer slice on the same array. Otherwise
  a new array is allocated, the elements of \<open>s\<close> and the new ones are copied into it,
  and the result refers to it. The specification leaves the capacity of the new array
  to the implementation beyond its being sufficient: \<open>grow\<close> (from the old capacity and
  the needed length) is a parameter. The rest of a new array holds the zero value nil.
\<close>

definition go_append ::
  "(nat \<Rightarrow> nat \<Rightarrow> nat) \<Rightarrow> heap \<Rightarrow> slice \<Rightarrow> slice \<Rightarrow> slice \<times> heap" where
  "go_append grow h s t =
     (let elems = slice_read h t;
          need = slice_len s + length elems
      in if elems = [] then (s, h)
         else
           (case s of
              Some (a, n, c) \<Rightarrow>
                if need \<le> c
                then (Some (a, need, c), h[a := take n (h ! a) @ elems @ drop need (h ! a)])
                else
                  (let newcap = max need (grow c need)
                   in (Some (length h, need, newcap),
                       h @ [take n (h ! a) @ elems @ replicate (newcap - need) VNil]))
            | None \<Rightarrow>
                (let newcap = max need (grow 0 need)
                 in (Some (length h, need, newcap),
                     h @ [elems @ replicate (newcap - need) VNil]))))"

section \<open>Row iterators of the child nodes\<close>

text \<open>
  \<open>sql.RowIter\<close> is an interface; the iterators of the two children are implemented
  outside \<open>cross_join.go\<close>. A child iterator is represented by what its calls return:
  \<open>pending\<close> lists the results of its coming \<open>Next()\<close> calls (a row or an error), after
  which every \<open>Next()\<close> returns \<open>io.EOF\<close>; \<open>close_err\<close> is what its \<open>Close()\<close>
  returns (\<open>None\<close> is the nil error). The rows are slices on arrays of the heap, and a
  child iterator of this kind does not write to the heap. An iterator over the rows
  \<open>L\<close> is \<open>rows_iter L\<close>.
\<close>

record RowIter =
  pending :: "(error + slice) list"
  close_err :: "error option"

definition RowIter_Next :: "RowIter \<Rightarrow> (error + slice) \<times> RowIter" where
  "RowIter_Next it =
     (case pending it of
        [] \<Rightarrow> (Inl EOF, it)
      | r # rs \<Rightarrow> (r, it\<lparr>pending := rs\<rparr>))"

definition rows_iter :: "slice list \<Rightarrow> RowIter" where
  "rows_iter rows = \<lparr>pending = map Inr rows, close_err = None\<rparr>"

text \<open>
  Opening and closing an iterator are the resource events. Each such call on a child is
  appended to a log, so that which calls were made, and in which order, can be stated.
\<close>

datatype child = LeftChild | RightChild

datatype call = RowIterCall child | CloseCall child

definition RowIter_Close :: "child \<Rightarrow> RowIter \<Rightarrow> call list \<Rightarrow> error option \<times> call list" where
  "RowIter_Close c it log = (close_err it, log @ [CloseCall c])"

text \<open>
  \<open>p.Left.RowIter()\<close> and \<open>p.Right.RowIter()\<close>: a child node is represented by the
  result of its \<open>RowIter()\<close> call.
\<close>

definition Node_RowIter ::
  "child \<Rightarrow> error + RowIter \<Rightarrow> call list \<Rightarrow> (error + RowIter) \<times> call list" where
  "Node_RowIter c node log = (node, log @ [RowIterCall c])"

section \<open>The cross join iterator\<close>

text \<open>
  The struct \<open>crossJoinIterator\<close> (lines 65 to 73). \<open>rightRows\<close> is a slice of rows that
  only the iterator holds; it is the list of the rows buffered, each of them a slice
  kept by reference.
\<close>

record crossJoinIterator =
  li :: RowIter
  ri :: RowIter
  rightRows :: "slice list"
  index :: nat
  leftRow :: slice

text \<open>\<open>CrossJoin.RowIter\<close> (cross_join.go, lines 35 to 50).\<close>

definition CrossJoin_RowIter ::
  "error + RowIter \<Rightarrow> error + RowIter \<Rightarrow> call list
     \<Rightarrow> (error + crossJoinIterator) \<times> call list" where
  "CrossJoin_RowIter left right log =
     (case Node_RowIter LeftChild left log of
        (Inl err, log1) \<Rightarrow> (Inl err, log1)
      | (Inr l, log1) \<Rightarrow>
          (case Node_RowIter RightChild right log1 of
             (Inl err, log2) \<Rightarrow> (Inl err, log2)
           | (Inr r, log2) \<Rightarrow>
               (Inr \<lparr>li = l, ri = r, rightRows = [], index = 0, leftRow = None\<rparr>, log2)))"

text \<open>
  \<open>fillRows\<close> (lines 115 to 124): the loop ends at the first error of the right
  iterator, which a child iterator as represented here always reaches.
\<close>

function fillRows :: "crossJoinIterator \<Rightarrow> error \<times> crossJoinIterator" where
  "fillRows i =
     (case RowIter_Next (ri i) of
        (Inl err, ri') \<Rightarrow> (err, i\<lparr>ri := ri'\<rparr>)
      | (Inr rr, ri') \<Rightarrow> fillRows (i\<lparr>ri := ri', rightRows := rightRows i @ [rr]\<rparr>))"
  by pat_completeness auto
termination
  by (relation "measure (\<lambda>i. length (pending (ri i)))")
     (auto simp: RowIter_Next_def split: list.splits)

text \<open>
  The second half of \<open>Next\<close> (lines 86 to 103): fetch a left row when none is held,
  append to it the right row at \<open>index\<close> (line 96, on the heap), advance.
  \<open>rightRows[i.index]\<close> panics when the index is out of range.
\<close>

definition Next_emit ::
  "(nat \<Rightarrow> nat \<Rightarrow> nat) \<Rightarrow> crossJoinIterator \<Rightarrow> heap
     \<Rightarrow> (error + slice) \<times> crossJoinIterator \<times> heap" where
  "Next_emit grow i h =
     (case (if leftRow i = None
            then (case RowIter_Next (li i) of
                    (Inl err, li') \<Rightarrow> Inl (err, i\<lparr>li := li'\<rparr>)
                  | (Inr lr, li') \<Rightarrow> Inr (i\<lparr>li := li', index := 0, leftRow := lr\<rparr>))
            else Inr i) of
        Inl (err, i') \<Rightarrow> (Inl err, i', h)
      | Inr i1 \<Rightarrow>
          if index i1 < length (rightRows i1)
          then
            (case go_append grow h (leftRow i1) (rightRows i1 ! index i1) of
               (row, h') \<Rightarrow>
                 (let i2 = i1\<lparr>index := index i1 + 1\<rparr>;
                      i3 = (if index i2 \<ge> length (rightRows i2)
                            then i2\<lparr>index := 0, leftRow := None\<rparr> else i2)
                  in (Inr row, i3, h')))
          else (Inl (Panic ''index out of range''), i1, h))"

text \<open>\<open>crossJoinIterator.Next\<close> (lines 75 to 104).\<close>

definition Next ::
  "(nat \<Rightarrow> nat \<Rightarrow> nat) \<Rightarrow> crossJoinIterator \<Rightarrow> heap
     \<Rightarrow> (error + slice) \<times> crossJoinIterator \<times> heap" where
  "Next grow i h =
     (if length (rightRows i) = 0
      then
        (case fillRows i of
           (err, i1) \<Rightarrow>
             if err \<noteq> EOF then (Inl err, i1, h)
             else if length (rightRows i1) = 0 then (Inl EOF, i1, h)
             else Next_emit grow i1 h)
      else Next_emit grow i h)"

text \<open>\<open>crossJoinIterator.Close\<close> (lines 106 to 113).\<close>

definition Close :: "crossJoinIterator \<Rightarrow> call list \<Rightarrow> error option \<times> call list" where
  "Close i log =
     (case RowIter_Close LeftChild (li i) log of
        (Some err, log1) \<Rightarrow>
          (case RowIter_Close RightChild (ri i) log1 of
             (_, log2) \<Rightarrow> (Some err, log2))
      | (None, log1) \<Rightarrow> RowIter_Close RightChild (ri i) log1)"

text \<open>
  A consumer of the iterator: it calls \<open>Next\<close> until the first error, at most \<open>fuel\<close>
  times, and keeps every row it receives, as \<open>fillRows\<close> itself does with the rows of
  the right child (line 122). It returns the rows kept, each with the values it held
  when \<open>Next\<close> returned it, the error that ended the stream (\<open>None\<close> when the fuel ran out
  first), the iterator and the heap.
\<close>

fun pull ::
  "(nat \<Rightarrow> nat \<Rightarrow> nat) \<Rightarrow> nat \<Rightarrow> crossJoinIterator \<Rightarrow> heap
     \<Rightarrow> (slice \<times> Value list) list \<times> error option \<times> crossJoinIterator \<times> heap" where
  "pull grow 0 i h = ([], None, i, h)"
| "pull grow (Suc fuel) i h =
     (case Next grow i h of
        (Inl err, i', h') \<Rightarrow> ([], Some err, i', h')
      | (Inr row, i', h') \<Rightarrow>
          (case pull grow fuel i' h' of
             (rows, e, i'', h'') \<Rightarrow> ((row, slice_read h' row) # rows, e, i'', h'')))"

text \<open>
  Running the join node on a heap: open its iterator and consume it. The result lists,
  for every row received, the values it held when \<open>Next\<close> returned it and the values it
  holds once the stream has ended, and gives the error that ended the stream.
\<close>

definition run_join ::
  "(nat \<Rightarrow> nat \<Rightarrow> nat) \<Rightarrow> nat \<Rightarrow> heap \<Rightarrow> error + RowIter \<Rightarrow> error + RowIter
     \<Rightarrow> (Value list \<times> Value list) list \<times> error option" where
  "run_join grow fuel h left right =
     (case CrossJoin_RowIter left right [] of
        (Inl err, log) \<Rightarrow> ([], Some err)
      | (Inr it, log) \<Rightarrow>
          (case pull grow fuel it h of
             (rows, e, it', h') \<Rightarrow>
               (map (\<lambda>(row, returned). (returned, slice_read h' row)) rows, e)))"

text \<open>
  The rows the specification asks for, as sequences of values: every left row with every
  right row, left-major.
\<close>

definition product_rows :: "heap \<Rightarrow> slice list \<Rightarrow> slice list \<Rightarrow> Value list list" where
  "product_rows h L R =
     concat (map (\<lambda>l. map (\<lambda>r. slice_read h l @ slice_read h r) R) L)"

subsection \<open>Notions used in the proofs about the iterator\<close>

text \<open>
  Between two calls of \<open>Next\<close>, once the right rows are buffered, on a run that started
  on the heap \<open>h0\<close>: \<open>L\<close> are the left rows not yet fetched and \<open>h\<close> is the heap
  reached. A slice is full when its length is its capacity. \<open>expected\<close> are the rows
  still to be emitted and \<open>remaining\<close> is their number.
\<close>

definition full_rows :: "heap \<Rightarrow> slice list \<Rightarrow> bool" where
  "full_rows h rows \<longleftrightarrow> list_all (\<lambda>s. slice_ok h s \<and> slice_len s = slice_cap s) rows"

definition running :: "heap \<Rightarrow> crossJoinIterator \<Rightarrow> slice list \<Rightarrow> heap \<Rightarrow> bool" where
  "running h0 i L h \<longleftrightarrow>
     rightRows i \<noteq> [] \<and> pending (li i) = map Inr L \<and>
     (length (rightRows i) \<le> 1 \<or> None \<notin> set L) \<and>
     (if leftRow i = None then index i = 0 else index i < length (rightRows i)) \<and>
     full_rows h0 (leftRow i # L) \<and> list_all (slice_ok h0) (rightRows i) \<and>
     take (length h0) h = h0 \<and> length h0 \<le> length h"

definition expected :: "heap \<Rightarrow> crossJoinIterator \<Rightarrow> slice list \<Rightarrow> Value list list" where
  "expected h0 i L =
     (if leftRow i = None then product_rows h0 L (rightRows i)
      else map (\<lambda>r. slice_read h0 (leftRow i) @ slice_read h0 r)
             (drop (index i) (rightRows i))
             @ product_rows h0 L (rightRows i))"

definition remaining :: "crossJoinIterator \<Rightarrow> slice list \<Rightarrow> nat" where
  "remaining i L =
     (if leftRow i = None then 0 else length (rightRows i) - index i)
       + length L * length (rightRows i)"

section \<open>Strings and runes\<close>

text \<open>
  The conversions \<open>[]rune(s)\<close> and \<open>string(rs)\<close> belong to the Go language, not to the
  repository. They are defined here as the Go language specification and the
  \<open>unicode/utf8\<close> package give them: \<open>[]rune(s)\<close> decodes the UTF-8 bytes of \<open>s\<close> into
  code points, each byte that starts no valid encoding giving U+FFFD; \<open>string(rs)\<close> is
  the concatenation of the UTF-8 encodings of the runes, a rune that is no valid code
  point being encoded as U+FFFD. A rune read from a string is never negative, so runes
  are natural numbers here.
\<close>

type_synonym rune = nat

definition RuneError :: rune where
  "RuneError = 0xFFFD"

definition byte_in :: "char \<Rightarrow> nat \<Rightarrow> nat \<Rightarrow> bool" where
  "byte_in c lo hi \<longleftrightarrow> lo \<le> of_char c \<and> of_char c \<le> hi"

text \<open>The first rune of a string and the number of bytes it takes.\<close>

fun decode_rune :: "string \<Rightarrow> rune \<times> nat" where
  "decode_rune [] = (RuneError, 0)"
| "decode_rune (b0 # rest) =
     (let x = (of_char b0 :: nat) in
      if x < 0x80 then (x, 1)
      else if 0xC2 \<le> x \<and> x \<le> 0xDF then
        (case rest of
           b1 # _ \<Rightarrow>
             if byte_in b1 0x80 0xBF
             then ((x mod 32) * 64 + of_char b1 mod 64, 2)
             else (RuneError, 1)
         | _ \<Rightarrow> (RuneError, 1))
      else if 0xE0 \<le> x \<and> x \<le> 0xEF then
        (case rest of
           b1 # b2 # _ \<Rightarrow>
             if byte_in b1 (if x = 0xE0 then 0xA0 else 0x80) (if x = 0xED then 0x9F else 0xBF)
                \<and> byte_in b2 0x80 0xBF
             then (((x mod 16) * 64 + of_char b1 mod 64) * 64 + of_char b2 mod 64, 3)
             else (RuneError, 1)
         | _ \<Rightarrow> (RuneError, 1))
      else if 0xF0 \<le> x \<and> x \<le> 0xF4 then
        (case rest of
           b1 # b2 # b3 # _ \<Rightarrow>
             if byte_in b1 (if x = 0xF0 then 0x90 else 0x80) (if x = 0xF4 then 0x8F else 0xBF)
                \<and> byte_in b2 0x80 0xBF \<and> byte_in b3 0x80 0xBF
             then ((((x mod 8) * 64 + of_char b1 mod 64) * 64 + of_char b2 mod 64) * 64
                     + of_char b3 mod 64, 4)
             else (RuneError, 1)
         | _ \<Rightarrow> (RuneError, 1))
      else (RuneError, 1))"

lemma decode_rune_width: "0 < snd (decode_rune (b # bs))"
  by (simp add: Let_def split: list.splits)

function runes :: "string \<Rightarrow> rune list" where
  "runes [] = []"
| "runes (b # bs) = (case decode_rune (b # bs) of (r, w) \<Rightarrow> r # runes (drop w (b # bs)))"
  by pat_completeness auto
termination
proof (relation "measure length")
  fix b bs r w
  assume "(r, w) = decode_rune (b # bs)"
  then have "w = snd (decode_rune (b # bs))"
    by (metis snd_conv)
  then have "0 < w"
    by (simp only: decode_rune_width)
  then show "(drop w (b # bs), b # bs) \<in> measure length"
    by simp
qed simp

definition encode_rune :: "rune \<Rightarrow> string" where
  "encode_rune r =
     (if r < 0x80 then [char_of r]
      else if r < 0x800 then [char_of (0xC0 + r div 64), char_of (0x80 + r mod 64)]
      else if 0x10FFFF < r \<or> (0xD800 \<le> r \<and> r \<le> 0xDFFF)
        then [CHR 0xEF, CHR 0xBF, CHR 0xBD]
      else if r < 0x10000 then
        [char_of (0xE0 + r div 4096), char_of (0x80 + (r div 64) mod 64),
         char_of (0x80 + r mod 64)]
      else
        [char_of (0xF0 + r div 262144), char_of (0x80 + (r div 4096) mod 64),
         char_of (0x80 + (r div 64) mod 64), char_of (0x80 + r mod 64)])"

definition string_of_runes :: "rune list \<Rightarrow> string" where
  "string_of_runes rs = concat (map encode_rune rs)"

text \<open>
  The slice expression \<open>text[lo:hi]\<close> with \<open>int64\<close> indices: a run-time panic unless
  \<open>0 \<le> lo \<le> hi\<close> and \<open>hi\<close> is within the slice. Go bounds \<open>hi\<close> by the capacity
  of the slice, which is not represented; the bound here is the length
  (\<open>Substring_slice_cases\<close> below shows that \<open>Substring.Eval\<close> reaches the expression
  only with a \<open>hi\<close> that is at most the length, or negative).
\<close>

definition slice_runes :: "rune list \<Rightarrow> int \<Rightarrow> int \<Rightarrow> error + rune list" where
  "slice_runes text lo hi =
     (if 0 \<le> lo \<and> lo \<le> hi \<and> hi \<le> int (length text)
      then Inr (take (nat (hi - lo)) (drop (nat lo) text))
      else Inl (Panic ''slice bounds out of range''))"

section \<open>Expressions\<close>

text \<open>
  The type system is an external collaborator: each named type has a \<open>Convert\<close>
  operation. The three the functions use are parameters of the evaluation.
\<close>

record TypeSystem =
  Blob_Convert :: "Value \<Rightarrow> error + Value"
  Int64_Convert :: "Value \<Rightarrow> error + Value"
  Date_Convert :: "Value \<Rightarrow> error + Value"

text \<open>
  \<open>sql.Expression\<close> is an interface. \<open>NilExpr\<close> is its nil value: \<open>Substring\<close> holds it
  in \<open>len\<close> when built from two arguments, and a method call on it panics. \<open>OtherExpr\<close>
  is an expression of a variant defined outside these files (a literal, a column
  reference), represented by what its \<open>Resolved()\<close> and its \<open>Eval(row)\<close> return.
  \<open>IsBinary\<close> and \<open>Year\<close> embed \<open>UnaryExpression\<close>, whose one field is \<open>Child\<close>.
\<close>

datatype expr =
    NilExpr
  | OtherExpr bool "Row \<Rightarrow> error + Value"
  | IsBinary expr
  | Substring expr expr expr
  | Year expr

definition NewIsBinary :: "expr \<Rightarrow> expr" where
  "NewIsBinary e = IsBinary e"

definition NewYear :: "expr \<Rightarrow> expr" where
  "NewYear date = Year date"

text \<open>\<open>NewSubstring\<close> (part_000, lines 84 to 99).\<close>

definition NewSubstring :: "expr list \<Rightarrow> error + expr" where
  "NewSubstring args =
     (if length args = 2 then Inr (Substring (args ! 0) (args ! 1) NilExpr)
      else if length args = 3 then Inr (Substring (args ! 0) (args ! 1) (args ! 2))
      else Inl (ErrInvalidArgumentNumber ''2 or 3'' (length args)))"

text \<open>
  \<open>bytes.IndexByte\<close> of the Go standard library, as its documentation gives it: the
  index of the first instance of \<open>c\<close> in \<open>b\<close>, or -1 if \<open>c\<close> is not present in \<open>b\<close>.
\<close>

fun IndexByte :: "string \<Rightarrow> char \<Rightarrow> int" where
  "IndexByte [] c = - 1"
| "IndexByte (b # bs) c =
     (if b = c then 0
      else (let k = IndexByte bs c in if k = - 1 then - 1 else k + 1))"

definition sniffLen :: nat where
  "sniffLen = 8000"

text \<open>\<open>isBinary\<close> (lines 59 to 69).\<close>

definition isBinary :: "string \<Rightarrow> bool" where
  "isBinary data =
     (let data = (if length data > sniffLen then take sniffLen data else data)
      in if IndexByte data (CHR 0x00) = - 1 then False else True)"

text \<open>\<open>reflect.TypeOf(v).String()\<close> for the values of the domain.\<close>

fun type_name :: "Value \<Rightarrow> string" where
  "type_name VNil = ''<nil>''"
| "type_name (VBool b) = ''bool''"
| "type_name (VInt32 n) = ''int32''"
| "type_name (VInt64 n) = ''int64''"
| "type_name (VText s) = ''string''"
| "type_name (VBlob b) = ''[]uint8''"
| "type_name (VTime t) = ''time.Time''"

text \<open>
  The type switch of \<open>Substring.Eval\<close> (lines 108 to 118): the runes of a string or of a
  byte slice, \<open>None\<close> for nil (the function then returns nil), an error for any other
  value.
\<close>

definition Substring_text :: "Value \<Rightarrow> error + rune list option" where
  "Substring_text str =
     (case str of
        VText s \<Rightarrow> Inr (Some (runes s))
      | VBlob b \<Rightarrow> Inr (Some (runes b))
      | VNil \<Rightarrow> Inr None
      | _ \<Rightarrow> Inl (ErrInvalidType (type_name str)))"

text \<open>The type assertion \<open>v.(int64)\<close>.\<close>

definition assert_int64 :: "Value \<Rightarrow> error + 64 word" where
  "assert_int64 v =
     (case v of
        VInt64 n \<Rightarrow> Inr n
      | _ \<Rightarrow> Inl (Panic ''interface conversion: interface {} is not int64''))"

text \<open>
  The end of \<open>Substring.Eval\<close> (lines 148 to 163), on \<open>int64\<close> values: \<open>+\<close> and \<open>-\<close>
  wrap around, comparisons are signed.
\<close>

definition Substring_slice :: "rune list \<Rightarrow> 64 word \<Rightarrow> 64 word \<Rightarrow> error + Value" where
  "Substring_slice text start len =
     (let runeCount = (word_of_nat (length text) :: 64 word);
          startIdx = (if sint start < 0 then runeCount + start else start - 1)
      in if sint startIdx < 0 \<or> sint startIdx \<ge> sint runeCount \<or> sint len \<le> 0
         then Inr (VText [])
         else
           (let len' = (if sint (startIdx + len) > sint runeCount
                        then runeCount - startIdx else len)
            in case slice_runes text (sint startIdx) (sint (startIdx + len')) of
                 Inl err \<Rightarrow> Inl err
               | Inr rs \<Rightarrow> Inr (VText (string_of_runes rs))))"

text \<open>
  \<open>Eval\<close> of the three functions: \<open>IsBinary.Eval\<close> (lines 22 to 38), \<open>Substring.Eval\<close>
  (lines 102 to 164), \<open>Year.Eval\<close> (lines 211 to 227).
\<close>

fun Eval :: "TypeSystem \<Rightarrow> expr \<Rightarrow> Row \<Rightarrow> error + Value" where
  "Eval ts NilExpr row = Inl (Panic ''nil pointer dereference'')"
| "Eval ts (OtherExpr r ev) row = ev row"
| "Eval ts (IsBinary child) row =
     (case Eval ts child row of
        Inl err \<Rightarrow> Inl err
      | Inr v \<Rightarrow>
          if v = VNil then Inr (VBool False)
          else
            (case Blob_Convert ts v of
               Inl err \<Rightarrow> Inl err
             | Inr blob \<Rightarrow>
                 (case blob of
                    VBlob b \<Rightarrow> Inr (VBool (isBinary b))
                  | _ \<Rightarrow> Inl (Panic ''interface conversion: interface {} is not []uint8''))))"
| "Eval ts (Substring str start ln) row =
     (case Eval ts str row of
        Inl err \<Rightarrow> Inl err
      | Inr strv \<Rightarrow>
          (case Substring_text strv of
             Inl err \<Rightarrow> Inl err
           | Inr None \<Rightarrow> Inr VNil
           | Inr (Some text) \<Rightarrow>
               (case Eval ts start row of
                  Inl err \<Rightarrow> Inl err
                | Inr startv \<Rightarrow>
                    (case Int64_Convert ts startv of
                       Inl err \<Rightarrow> Inl err
                     | Inr startc \<Rightarrow>
                         (case (case ln of
                                  NilExpr \<Rightarrow> Inr (word_of_nat (length text))
                                | _ \<Rightarrow>
                                    (case Eval ts ln row of
                                       Inl err \<Rightarrow> Inl err
                                     | Inr lenv \<Rightarrow>
                                         (case Int64_Convert ts lenv of
                                            Inl err \<Rightarrow> Inl err
                                          | Inr lenc \<Rightarrow> assert_int64 lenc))) of
                            Inl err \<Rightarrow> Inl err
                          | Inr len \<Rightarrow>
                              (case assert_int64 startc of
                                 Inl err \<Rightarrow> Inl err
                               | Inr start' \<Rightarrow> Substring_slice text start' len))))))"
| "Eval ts (Year child) row =
     (case Eval ts child row of
        Inl err \<Rightarrow> Inl err
      | Inr val \<Rightarrow>
          if val = VNil then Inr VNil
          else
            (case Date_Convert ts val of
               Inl err \<Rightarrow> Inl err
             | Inr date \<Rightarrow>
                 (case date of
                    VTime t \<Rightarrow> Inr (VInt32 (word_of_int (Time_Year t)))
                  | _ \<Rightarrow> Inl (Panic ''interface conversion: interface {} is not time.Time''))))"

text \<open>
  Modelled from the spec: \<open>UnaryExpression.Resolved\<close>, which \<open>IsBinary\<close> and \<open>Year\<close>
  take by embedding, is not in these files; \<open>Resolved()\<close> is "true once every free
  reference inside the subtree is bound", so for them it is the child's \<open>Resolved()\<close>.
  The equation of \<open>Substring\<close> is \<open>Substring.Resolved\<close> of the source (line 175). A call
  on the nil expression panics.
\<close>

fun Resolved :: "expr \<Rightarrow> error + bool" where
  "Resolved NilExpr = Inl (Panic ''nil pointer dereference'')"
| "Resolved (OtherExpr r ev) = Inr r"
| "Resolved (IsBinary child) = Resolved child"
| "Resolved (Substring str start ln) = Inr True"
| "Resolved (Year child) = Resolved child"

text \<open>
  Modelled from the spec: the \<open>TransformUp\<close> of an expression variant defined outside
  these files (\<open>OtherExpr\<close>) is missing; "leaf nodes with no children simply invoke
  \<open>f(self)\<close>". The other equations are the \<open>TransformUp\<close> of the three functions of the
  source (lines 46 to 48, 181 to 192 and 230 to 232). A call on the nil expression
  panics. \<open>Substring.TransformUp\<close> drops the error of \<open>NewSubstring\<close>, so that \<open>sub\<close>
  would be nil on an error.
\<close>

fun TransformUp :: "(expr \<Rightarrow> expr) \<Rightarrow> expr \<Rightarrow> error + expr" where
  "TransformUp f NilExpr = Inl (Panic ''nil pointer dereference'')"
| "TransformUp f (OtherExpr r ev) = Inr (f (OtherExpr r ev))"
| "TransformUp f (IsBinary child) =
     (case TransformUp f child of
        Inl err \<Rightarrow> Inl err
      | Inr c \<Rightarrow> Inr (NewIsBinary c))"
| "TransformUp f (Substring str start ln) =
     (case ln of
        NilExpr \<Rightarrow>
          (case TransformUp f str of
             Inl err \<Rightarrow> Inl err
           | Inr a \<Rightarrow>
               (case TransformUp f start of
                  Inl err \<Rightarrow> Inl err
                | Inr b \<Rightarrow>
                    Inr (f (case NewSubstring [a, b] of Inl err \<Rightarrow> NilExpr | Inr sub \<Rightarrow> sub))))
      | _ \<Rightarrow>
          (case TransformUp f str of
             Inl err \<Rightarrow> Inl err
           | Inr a \<Rightarrow>
               (case TransformUp f start of
                  Inl err \<Rightarrow> Inl err
                | Inr b \<Rightarrow>
                    (case TransformUp f ln of
                       Inl err \<Rightarrow> Inl err
                     | Inr c \<Rightarrow>
                         Inr (f (case NewSubstring [a, b, c] of
                                   Inl err \<Rightarrow> NilExpr | Inr sub \<Rightarrow> sub))))))"
| "TransformUp f (Year child) =
     (case TransformUp f child of
        Inl err \<Rightarrow> Inl err
      | Inr c \<Rightarrow> Inr (f (NewYear c)))"

text \<open>
  An expression tree on which no method is called on nil: every child that the code
  dereferences is an expression (\<open>len\<close> alone may be nil).
\<close>

fun no_nil_child :: "expr \<Rightarrow> bool" where
  "no_nil_child NilExpr = False"
| "no_nil_child (OtherExpr r ev) = True"
| "no_nil_child (IsBinary child) = no_nil_child child"
| "no_nil_child (Substring str start ln) =
     (no_nil_child str \<and> no_nil_child start \<and>
      (case ln of NilExpr \<Rightarrow> True | _ \<Rightarrow> no_nil_child ln))"
| "no_nil_child (Year child) = no_nil_child child"

section \<open>Plan nodes\<close>

text \<open>
  \<open>sql.Node\<close> is an interface; \<open>CrossJoin\<close> is its one variant in these files, with the
  fields \<open>Left\<close> and \<open>Right\<close> of the embedded \<open>BinaryNode\<close>. \<open>OtherNode\<close> is a node of a
  variant defined elsewhere, without children.
\<close>

datatype Node =
    OtherNode string
  | CrossJoin Node Node

definition NewCrossJoin :: "Node \<Rightarrow> Node \<Rightarrow> Node" where
  "NewCrossJoin left right = CrossJoin left right"

text \<open>
  Modelled from the spec: the \<open>TransformUp\<close> of a node variant defined outside these
  files (\<open>OtherNode\<close>) is missing; "leaf nodes with no children simply invoke
  \<open>f(self)\<close>". The equation of \<open>CrossJoin\<close> is \<open>CrossJoin.TransformUp\<close> of the source
  (cross_join.go, lines 53 to 55).
\<close>

fun Node_TransformUp :: "(Node \<Rightarrow> Node) \<Rightarrow> Node \<Rightarrow> Node" where
  "Node_TransformUp f (OtherNode n) = f (OtherNode n)"
| "Node_TransformUp f (CrossJoin left right) =
     f (NewCrossJoin (Node_TransformUp f left) (Node_TransformUp f right))"

section \<open>Concrete inputs\<close>

text \<open>
  For evaluating the definitions at concrete inputs: a resolved leaf expression that
  evaluates to the same value on every row, and a type system that returns a value
  already of the target type as it is (a text also as the blob of its bytes) and
  rejects every other value.
\<close>

definition literal :: "Value \<Rightarrow> expr" where
  "literal v = OtherExpr True (\<lambda>row. Inr v)"

definition exact_types :: TypeSystem where
  "exact_types =
     \<lparr>Blob_Convert =
        (\<lambda>v. case v of
                VBlob b \<Rightarrow> Inr (VBlob b)
              | VText s \<Rightarrow> Inr (VBlob s)
              | _ \<Rightarrow> Inl (ErrOther ''cannot convert to blob'')),
      Int64_Convert =
        (\<lambda>v. case v of
                VInt64 n \<Rightarrow> Inr (VInt64 n)
              | _ \<Rightarrow> Inl (ErrOther ''cannot convert to int64'')),
      Date_Convert =
        (\<lambda>v. case v of
                VTime t \<Rightarrow> Inr (VTime t)
              | _ \<Rightarrow> Inl (ErrOther ''cannot convert to date''))\<rparr>"

section \<open>Properties of the cross join\<close>

lemma fillRows_rows:
  "pending (ri i) = map Inr R \<Longrightarrow>
   fillRows i = (EOF, i\<lparr>ri := (ri i)\<lparr>pending := []\<rparr>, rightRows := rightRows i @ R\<rparr>)"
proof (induction R arbitrary: i)
  case Nil
  then show ?case
    by (subst fillRows.simps) (simp add: RowIter_Next_def)
next
  case (Cons r R)
  let ?j = "i\<lparr>ri := (ri i)\<lparr>pending := map Inr R\<rparr>, rightRows := rightRows i @ [r]\<rparr>"
  have "fillRows i = fillRows ?j"
    using Cons.prems by (subst fillRows.simps) (simp add: RowIter_Next_def)
  also have "\<dots> = (EOF, ?j\<lparr>ri := (ri ?j)\<lparr>pending := []\<rparr>, rightRows := rightRows ?j @ R\<rparr>)"
    by (rule Cons.IH) simp
  finally show ?case by simp
qed


lemma product_rows_Nil: "product_rows h [] R = []"
  by (simp add: product_rows_def)

lemma product_rows_Cons:
  "product_rows h (l # L) R = map (\<lambda>r. slice_read h l @ slice_read h r) R @ product_rows h L R"
  by (simp add: product_rows_def)

lemma product_rows_right_Nil: "product_rows h L [] = []"
  by (induction L) (simp_all add: product_rows_Nil product_rows_Cons)

lemma length_product_rows: "length (product_rows h L R) = length L * length R"
  by (induction L) (simp_all add: product_rows_Nil product_rows_Cons)

text \<open>A heap that has only grown: slices of the old heap read the same.\<close>

lemma grown_heap:
  assumes "take (length h) h' = h" and "length h \<le> length h'"
  obtains ext where "h' = h @ ext"
  using assms by (metis append_take_drop_id)

lemma slice_read_grown: "slice_ok h s \<Longrightarrow> slice_read (h @ ext) s = slice_read h s"
  by (auto simp: slice_ok_def slice_read_def nth_append split: option.splits)

lemma slice_ok_grown: "slice_ok h s \<Longrightarrow> slice_ok (h @ ext) s"
  by (auto simp: slice_ok_def nth_append split: option.splits)

text \<open>
  \<open>append\<close> to a full slice never writes into an array that exists: it returns the
  slice itself or a slice on a new array.
\<close>

lemma go_append_full:
  assumes s: "slice_ok h s" and f: "slice_len s = slice_cap s" and t: "slice_ok h t"
  shows "\<exists>row ext. go_append grow h s t = (row, h @ ext) \<and> slice_ok (h @ ext) row \<and>
           slice_read (h @ ext) row = slice_read h s @ slice_read h t"
proof (cases "slice_read h t = []")
  case True
  then have "go_append grow h s t = (s, h @ [])"
    by (simp add: go_append_def)
  then show ?thesis
    using s True by (metis append_Nil2)
next
  case False
  show ?thesis
  proof (cases s)
    case None
    let ?need = "length (slice_read h t)"
    let ?cap = "max ?need (grow 0 ?need)"
    let ?arr = "slice_read h t @ replicate (?cap - ?need) VNil"
    have "go_append grow h s t = (Some (length h, ?need, ?cap), h @ [?arr])"
      using False None by (simp add: go_append_def slice_len_def Let_def)
    moreover have "slice_ok (h @ [?arr]) (Some (length h, ?need, ?cap))"
      by (simp add: slice_ok_def)
    moreover have "slice_read (h @ [?arr]) (Some (length h, ?need, ?cap))
                   = slice_read h s @ slice_read h t"
      using None by (simp add: slice_read_def)
    ultimately show ?thesis by blast
  next
    case (Some x)
    then obtain a n c where x: "s = Some (a, n, c)" by (cases x) auto
    from s f x have b: "a < length h" "n = c" "c \<le> length (h ! a)"
      by (simp_all add: slice_ok_def slice_len_def slice_cap_def)
    let ?k = "length (slice_read h t)"
    let ?need = "n + ?k"
    let ?cap = "max ?need (grow c ?need)"
    let ?arr = "take n (h ! a) @ slice_read h t @ replicate (?cap - ?need) VNil"
    have k: "0 < ?k" using False by simp
    have "go_append grow h s t = (Some (length h, ?need, ?cap), h @ [?arr])"
      using False x b k by (simp add: go_append_def slice_len_def Let_def)
    moreover have "slice_ok (h @ [?arr]) (Some (length h, ?need, ?cap))"
      using b by (simp add: slice_ok_def)
    moreover have "slice_read (h @ [?arr]) (Some (length h, ?need, ?cap))
                   = slice_read h s @ slice_read h t"
      using x b by (simp add: slice_read_def)
    ultimately show ?thesis by blast
  qed
qed


lemma Next_running_end:
  "running h0 i [] h \<Longrightarrow> leftRow i = None \<Longrightarrow> \<exists>i'. Next grow i h = (Inl EOF, i', h)"
  by (simp add: running_def Next_def Next_emit_def RowIter_Next_def)

text \<open>
  One emission, from a state in which the left row \<open>l\<close> is held or has just been
  fetched: the row returned holds the values of \<open>l\<close> followed by those of the right row
  at \<open>k\<close>, and the heap has only grown.
\<close>

lemma emit_full:
  assumes h: "take (length h0) h = h0" "length h0 \<le> length h"
    and l: "slice_ok h0 l" "slice_len l = slice_cap l"
    and R: "list_all (slice_ok h0) R" and k: "k < length R"
  shows "\<exists>row ext. go_append grow h l (R ! k) = (row, h @ ext) \<and> slice_ok (h @ ext) row \<and>
           slice_read (h @ ext) row = slice_read h0 l @ slice_read h0 (R ! k)"
proof -
  from h obtain e where e: "h = h0 @ e" by (rule grown_heap)
  from R k have r: "slice_ok h0 (R ! k)" by (simp add: list_all_length)
  have "slice_ok h l" "slice_ok h (R ! k)"
    using l(1) r by (simp_all add: e slice_ok_grown)
  moreover have "slice_read h l = slice_read h0 l" "slice_read h (R ! k) = slice_read h0 (R ! k)"
    using l(1) r by (simp_all add: e slice_read_grown)
  ultimately show ?thesis
    using go_append_full [of h l "R ! k" grow] l(2) by simp
qed

lemma Next_running_step:
  assumes run: "running h0 i L h" and more: "leftRow i \<noteq> None \<or> L \<noteq> []"
  shows "\<exists>row i' L' ext. Next grow i h = (Inr row, i', h @ ext) \<and> running h0 i' L' (h @ ext) \<and>
           slice_ok (h @ ext) row \<and>
           expected h0 i L = slice_read (h @ ext) row # expected h0 i' L' \<and>
           remaining i L = Suc (remaining i' L')"
proof -
  from run have R: "rightRows i \<noteq> []" and okR: "list_all (slice_ok h0) (rightRows i)"
    and h: "take (length h0) h = h0" "length h0 \<le> length h"
    by (simp_all add: running_def)
  have none_full: "slice_ok h0 None \<and> slice_len None = slice_cap None"
    by (simp add: slice_ok_def slice_len_def slice_cap_def)
  have grown: "take (length h0) (h @ ext) = h0 \<and> length h0 \<le> length (h @ ext)" for ext
    using h by simp
  show ?thesis
  proof (cases "leftRow i = None")
    case True
    with more obtain l L' where L: "L = l # L'" by (cases L) auto
    from run True have p: "pending (li i) = Inr l # map Inr L'"
      and n: "length (rightRows i) \<le> 1 \<or> None \<notin> set (l # L')" and k: "index i = 0"
      and fl: "slice_ok h0 l" "slice_len l = slice_cap l" and fL: "full_rows h0 (None # L')"
      by (auto simp: running_def L full_rows_def none_full)
    from R have k0: "0 < length (rightRows i)" by simp
    from emit_full [OF h fl okR k0, of grow] obtain row ext where
      g: "go_append grow h l (rightRows i ! 0) = (row, h @ ext)" "slice_ok (h @ ext) row"
         "slice_read (h @ ext) row = slice_read h0 l @ slice_read h0 (rightRows i ! 0)"
      by blast
    show ?thesis
    proof (cases "length (rightRows i) \<le> 1")
      case one: True
      with R obtain r where r: "rightRows i = [r]" by (cases "rightRows i") auto
      let ?i' = "i\<lparr>li := (li i)\<lparr>pending := map Inr L'\<rparr>, index := 0, leftRow := None\<rparr>"
      have "Next grow i h = (Inr row, ?i', h @ ext)"
        using True p r k g(1)
        by (simp add: Next_def Next_emit_def RowIter_Next_def Let_def)
      moreover have "running h0 ?i' L' (h @ ext)"
        using r okR fL grown by (simp add: running_def)
      moreover have "expected h0 i L = slice_read (h @ ext) row # expected h0 ?i' L'"
        using True r g(3) by (simp add: expected_def L product_rows_Cons)
      moreover have "remaining i L = Suc (remaining ?i' L')"
        using True r by (simp add: remaining_def L)
      ultimately show ?thesis using g(2) by blast
    next
      case False
      with n obtain x where l: "l = Some x" and L': "None \<notin> set L'" by (cases l) auto
      from False obtain r r' R' where r: "rightRows i = r # r' # R'"
        by (cases "rightRows i"; cases "tl (rightRows i)") auto
      let ?i' = "i\<lparr>li := (li i)\<lparr>pending := map Inr L'\<rparr>, index := Suc 0, leftRow := l\<rparr>"
      have "Next grow i h = (Inr row, ?i', h @ ext)"
        using True p r k g(1)
        by (simp add: Next_def Next_emit_def RowIter_Next_def Let_def)
      moreover have "running h0 ?i' L' (h @ ext)"
        using r okR fL fl l L' grown by (simp add: running_def full_rows_def)
      moreover have "expected h0 i L = slice_read (h @ ext) row # expected h0 ?i' L'"
        using True r g(3) l by (simp add: expected_def L product_rows_Cons)
      moreover have "remaining i L = Suc (remaining ?i' L')"
        using True r l by (simp add: remaining_def L)
      ultimately show ?thesis using g(2) by blast
    qed
  next
    case False
    from run False have p: "pending (li i) = map Inr L"
      and n: "length (rightRows i) \<le> 1 \<or> None \<notin> set L"
      and k: "index i < length (rightRows i)"
      and fl: "slice_ok h0 (leftRow i)" "slice_len (leftRow i) = slice_cap (leftRow i)"
      and fL: "full_rows h0 (None # L)"
      by (auto simp: running_def full_rows_def none_full)
    from emit_full [OF h fl okR k, of grow] obtain row ext where
      g: "go_append grow h (leftRow i) (rightRows i ! index i) = (row, h @ ext)"
         "slice_ok (h @ ext) row"
         "slice_read (h @ ext) row
            = slice_read h0 (leftRow i) @ slice_read h0 (rightRows i ! index i)"
      by blast
    have d: "drop (index i) (rightRows i)
               = rightRows i ! index i # drop (Suc (index i)) (rightRows i)"
      using k by (simp add: Cons_nth_drop_Suc)
    from False obtain x where lr: "leftRow i = Some x" by (cases "leftRow i") auto
    show ?thesis
    proof (cases "Suc (index i) < length (rightRows i)")
      case True
      let ?i' = "i\<lparr>index := Suc (index i)\<rparr>"
      have "Next grow i h = (Inr row, ?i', h @ ext)"
        using lr R k True g(1) by (simp add: Next_def Next_emit_def Let_def)
      moreover have "running h0 ?i' L (h @ ext)"
        using run lr True grown by (simp add: running_def)
      moreover have "expected h0 i L = slice_read (h @ ext) row # expected h0 ?i' L"
        using lr d g(3) by (simp add: expected_def)
      moreover have "remaining i L = Suc (remaining ?i' L)"
        using lr True by (simp add: remaining_def Suc_diff_Suc)
      ultimately show ?thesis using g(2) by blast
    next
      case last: False
      let ?i' = "i\<lparr>index := 0, leftRow := None\<rparr>"
      have "Next grow i h = (Inr row, ?i', h @ ext)"
        using lr R k last g(1) by (simp add: Next_def Next_emit_def Let_def)
      moreover have "running h0 ?i' L (h @ ext)"
        using R p n okR fL grown by (simp add: running_def)
      moreover have "expected h0 i L = slice_read (h @ ext) row # expected h0 ?i' L"
        using lr d g(3) last by (simp add: expected_def)
      moreover have "remaining i L = Suc (remaining ?i' L)"
        using lr k last by (simp add: remaining_def)
      ultimately show ?thesis using g(2) by blast
    qed
  qed
qed

text \<open>
  The rows a consumer keeps read, in every heap grown from the final one, what they held
  when they were returned.
\<close>

lemma pull_running:
  "running h0 i L h \<Longrightarrow> remaining i L < fuel \<Longrightarrow>
   \<exists>rows i' ext. pull grow fuel i h = (rows, Some EOF, i', h @ ext) \<and>
     map snd rows = expected h0 i L \<and>
     (\<forall>ext'. map (\<lambda>(row, returned). slice_read (h @ ext @ ext') row) rows = map snd rows)"
proof (induction fuel arbitrary: i L h)
  case 0
  then show ?case by simp
next
  case (Suc fuel)
  show ?case
  proof (cases "leftRow i \<noteq> None \<or> L \<noteq> []")
    case True
    from Next_running_step [OF Suc.prems(1) True, of grow] obtain row i1 L1 e1 where
      s: "Next grow i h = (Inr row, i1, h @ e1)" "running h0 i1 L1 (h @ e1)"
         "slice_ok (h @ e1) row" "expected h0 i L = slice_read (h @ e1) row # expected h0 i1 L1"
         "remaining i L = Suc (remaining i1 L1)" by blast
    with Suc.prems(2) have "remaining i1 L1 < fuel" by simp
    from Suc.IH [OF s(2) this] obtain rows i' e2 where
      r: "pull grow fuel i1 (h @ e1) = (rows, Some EOF, i', (h @ e1) @ e2)"
         "map snd rows = expected h0 i1 L1"
         "\<forall>ext'. map (\<lambda>(row, returned). slice_read ((h @ e1) @ e2 @ ext') row) rows
                   = map snd rows"
      by blast
    let ?rows = "(row, slice_read (h @ e1) row) # rows"
    have "pull grow (Suc fuel) i h = (?rows, Some EOF, i', h @ (e1 @ e2))"
      using s(1) r(1) by simp
    moreover have "map snd ?rows = expected h0 i L"
      using s(4) r(2) by simp
    moreover have "\<forall>ext'. map (\<lambda>(row, returned). slice_read (h @ (e1 @ e2) @ ext') row) ?rows
                     = map snd ?rows"
    proof
      fix ext'
      have "slice_read ((h @ e1) @ (e2 @ ext')) row = slice_read (h @ e1) row"
        using s(3) by (rule slice_read_grown)
      then show "map (\<lambda>(row, returned). slice_read (h @ (e1 @ e2) @ ext') row) ?rows
                   = map snd ?rows"
        using r(3) [rule_format, of ext'] by simp
    qed
    ultimately show ?thesis by blast
  next
    case False
    then have e: "leftRow i = None" "L = []" by blast+
    with Next_running_end [of h0 i h grow] Suc.prems(1) obtain i' where
      "Next grow i h = (Inl EOF, i', h)" by auto
    then have "pull grow (Suc fuel) i h = ([], Some EOF, i', h @ [])" by simp
    moreover have "expected h0 i L = []"
      using e by (simp add: expected_def product_rows_Nil)
    ultimately show ?thesis by (metis list.simps(8))
  qed
qed

lemma pull_opened:
  assumes l: "pending lit = map Inr L" and r: "pending rit = map Inr R"
    and n: "length R \<le> 1 \<or> None \<notin> set L" and f: "length L * length R < fuel"
    and fL: "full_rows h L" and okR: "list_all (slice_ok h) R"
  shows "\<exists>rows i' h'.
           pull grow fuel \<lparr>li = lit, ri = rit, rightRows = [], index = 0, leftRow = None\<rparr> h
             = (rows, Some EOF, i', h') \<and>
           map (\<lambda>(row, returned). (returned, slice_read h' row)) rows
             = map (\<lambda>c. (c, c)) (product_rows h L R)"
proof -
  let ?i = "\<lparr>li = lit, ri = rit, rightRows = [], index = 0, leftRow = None\<rparr>"
  let ?j = "\<lparr>li = lit, ri = rit\<lparr>pending := []\<rparr>, rightRows = R, index = 0, leftRow = None\<rparr>"
  from f obtain k where k: "fuel = Suc k" by (cases fuel) auto
  have fill: "fillRows ?i = (EOF, ?j)"
    using fillRows_rows [of ?i R] r by simp
  show ?thesis
  proof (cases "R = []")
    case True
    then show ?thesis
      using fill by (simp add: k Next_def product_rows_right_Nil)
  next
    case False
    have "Next grow ?i h = Next grow ?j h"
      using fill False by (simp add: Next_def)
    then have p: "pull grow fuel ?i h = pull grow fuel ?j h"
      by (simp add: k)
    have "running h ?j L h"
      using False l n fL okR
      by (simp add: running_def full_rows_def slice_ok_def slice_len_def slice_cap_def)
    moreover have "remaining ?j L < fuel"
      using f by (simp add: remaining_def)
    ultimately obtain rows i' ext where
      q: "pull grow fuel ?j h = (rows, Some EOF, i', h @ ext)"
         "map snd rows = expected h ?j L"
         "\<forall>ext'. map (\<lambda>(row, returned). slice_read (h @ ext @ ext') row) rows = map snd rows"
      using pull_running [of h ?j L h fuel grow] by blast
    from q(3) [rule_format, of "[]"] have
      "map (\<lambda>(row, returned). slice_read (h @ ext) row) rows = map snd rows" by simp
    then have "map (\<lambda>(row, returned). (returned, slice_read (h @ ext) row)) rows
                 = map (\<lambda>c. (c, c)) (map snd rows)"
      by (induction rows) auto
    then show ?thesis
      using q(1,2) by (simp add: p expected_def)
  qed
qed

text \<open>
  What the join does emit when nothing can be overwritten. Let the left child yield the
  rows \<open>L\<close> and the right child the rows \<open>R\<close>, all of them slices of the heap, every
  left row full (its length is its capacity) and none of them nil (or let \<open>R\<close> hold at
  most one row). Then a consumer that calls \<open>Next\<close> until the first error receives
  the product in left-major order and then \<open>io.EOF\<close>, and every row still holds at the
  end what it held when it was returned.
\<close>

lemma CrossJoin_full_left_rows:
  assumes "pending lit = map Inr L" and "pending rit = map Inr R"
    and "length R \<le> 1 \<or> None \<notin> set L"
    and "length L * length R < fuel"
    and "full_rows h L" and "list_all (slice_ok h) R"
  shows "run_join grow fuel h (Inr lit) (Inr rit)
           = (map (\<lambda>c. (c, c)) (product_rows h L R), Some EOF)"
  using pull_opened [OF assms, of grow]
  by (auto simp: run_join_def CrossJoin_RowIter_def Node_RowIter_def)

text \<open>
  Where rows with spare capacity come from: the rows a cross join emits. A row of two
  values has to grow to take a third one; when the new array is given the capacity 4
  (the Go runtime doubles the capacity of a small slice that has to grow), the row
  emitted has the length 3 and the capacity 4.
\<close>

lemma CrossJoin_emits_spare_capacity:
  assumes "grow 2 3 = 4"
  shows "pull grow 2
           \<lparr>li = rows_iter [Some (0, 2, 2)], ri = rows_iter [Some (1, 1, 1)],
             rightRows = [], index = 0, leftRow = None\<rparr>
           [[VInt64 1, VInt64 2], [VText ''x''], [VText ''a''], [VText ''b'']]
         = ([(Some (4, 3, 4), [VInt64 1, VInt64 2, VText ''x''])], Some EOF,
            \<lparr>li = rows_iter [], ri = rows_iter [], rightRows = [Some (1, 1, 1)],
              index = 0, leftRow = None\<rparr>,
            [[VInt64 1, VInt64 2], [VText ''x''], [VText ''a''], [VText ''b''],
             [VInt64 1, VInt64 2, VText ''x'', VNil]])"
proof -
  let ?i = "\<lparr>li = rows_iter [Some (0, 2, 2)], ri = rows_iter [Some (1, 1, 1)],
             rightRows = [], index = 0, leftRow = None\<rparr>"
  have fill: "fillRows ?i = (EOF, ?i\<lparr>ri := (ri ?i)\<lparr>pending := []\<rparr>,
      rightRows := rightRows ?i @ [Some (1, 1, 1)]\<rparr>)"
    by (rule fillRows_rows) (simp add: rows_iter_def)
  have two: "(2::nat) = Suc (Suc 0)" by simp
  have g: "grow 2 (Suc (Suc (Suc 0))) = 4"
    using assms by (simp add: numeral_3_eq_3)
  have "pull grow (Suc (Suc 0)) ?i
           [[VInt64 1, VInt64 2], [VText ''x''], [VText ''a''], [VText ''b'']]
         = ([(Some (4, 3, 4), [VInt64 1, VInt64 2, VText ''x''])], Some EOF,
            \<lparr>li = rows_iter [], ri = rows_iter [], rightRows = [Some (1, 1, 1)],
              index = 0, leftRow = None\<rparr>,
            [[VInt64 1, VInt64 2], [VText ''x''], [VText ''a''], [VText ''b''],
             [VInt64 1, VInt64 2, VText ''x'', VNil]])"
    using fill
    by (simp add: Next_def Next_emit_def RowIter_Next_def rows_iter_def go_append_def
          slice_read_def slice_len_def Let_def g)
  then show ?thesis by (simp only: two)
qed

text \<open>
  Claim C1 does not hold of the code. Line 96 appends the right row to \<open>i.leftRow\<close>, and
  \<open>i.leftRow\<close> is kept for the next call. When the left row has spare capacity, as the
  row of the lemma above has, \<open>append\<close> writes the right row into the backing array of
  the left row, and the next call writes the next right row over it. Here the left child
  yields the row \<open>1, 2, x\<close> of length 3 and capacity 4 and the right child the rows \<open>a\<close>
  and \<open>b\<close>. The claim gives the rows \<open>1, 2, x, a\<close> and \<open>1, 2, x, b\<close>. The join returns
  two slices on one array: the first holds \<open>1, 2, x, a\<close> when it is returned and
  \<open>1, 2, x, b\<close> after the second call, so that a consumer that keeps the rows holds
  \<open>1, 2, x, b\<close> twice. This is so for every growth policy \<open>grow\<close>.
\<close>

theorem CrossJoin_overwrites_emitted_row:
  "run_join grow 3
     [[VInt64 1, VInt64 2], [VText ''x''], [VText ''a''], [VText ''b''],
      [VInt64 1, VInt64 2, VText ''x'', VNil]]
     (Inr (rows_iter [Some (4, 3, 4)]))
     (Inr (rows_iter [Some (2, 1, 1), Some (3, 1, 1)]))
   = ([([VInt64 1, VInt64 2, VText ''x'', VText ''a''],
        [VInt64 1, VInt64 2, VText ''x'', VText ''b'']),
       ([VInt64 1, VInt64 2, VText ''x'', VText ''b''],
        [VInt64 1, VInt64 2, VText ''x'', VText ''b''])],
      Some EOF) \<and>
   product_rows
     [[VInt64 1, VInt64 2], [VText ''x''], [VText ''a''], [VText ''b''],
      [VInt64 1, VInt64 2, VText ''x'', VNil]]
     [Some (4, 3, 4)] [Some (2, 1, 1), Some (3, 1, 1)]
   = [[VInt64 1, VInt64 2, VText ''x'', VText ''a''],
      [VInt64 1, VInt64 2, VText ''x'', VText ''b'']]"
proof -
  let ?i = "\<lparr>li = rows_iter [Some (4, 3, 4)],
             ri = rows_iter [Some (2, 1, 1), Some (3, 1, 1)],
             rightRows = [], index = 0, leftRow = None\<rparr>"
  have fill: "fillRows ?i = (EOF, ?i\<lparr>ri := (ri ?i)\<lparr>pending := []\<rparr>,
      rightRows := rightRows ?i @ [Some (2, 1, 1), Some (3, 1, 1)]\<rparr>)"
    by (rule fillRows_rows) (simp add: rows_iter_def)
  have fuel: "pull grow 3 = pull grow (Suc (Suc (Suc 0)))"
    by (simp add: numeral_3_eq_3)
  show ?thesis
    using fill
    by (simp add: run_join_def CrossJoin_RowIter_def Node_RowIter_def fuel Next_def
          Next_emit_def RowIter_Next_def rows_iter_def product_rows_def go_append_def
          slice_read_def slice_len_def Let_def)
qed

text \<open>
  A second way in which rows are lost: \<open>Next\<close> takes a nil \<open>leftRow\<close> to mean that no
  left row is held (lines 86 and 100), so a left row that is itself the nil slice is
  given up after its first pairing. With two left rows of no columns, both nil, and the
  right rows \<open>a\<close> and \<open>b\<close>, the join emits \<open>a\<close> twice, where the product has the four
  rows \<open>a, b, a, b\<close>.
\<close>

lemma CrossJoin_nil_left_rows:
  "run_join grow 5 [[VText ''a''], [VText ''b'']]
     (Inr (rows_iter [None, None]))
     (Inr (rows_iter [Some (0, 1, 1), Some (1, 1, 1)]))
   = ([([VText ''a''], [VText ''a'']), ([VText ''a''], [VText ''a''])], Some EOF)"
  "product_rows [[VText ''a''], [VText ''b'']] [None, None] [Some (0, 1, 1), Some (1, 1, 1)]
   = [[VText ''a''], [VText ''b''], [VText ''a''], [VText ''b'']]"
proof -
  let ?i = "\<lparr>li = rows_iter [None, None],
             ri = rows_iter [Some (0, 1, 1), Some (1, 1, 1)],
             rightRows = [], index = 0, leftRow = None\<rparr>"
  have fill: "fillRows ?i = (EOF, ?i\<lparr>ri := (ri ?i)\<lparr>pending := []\<rparr>,
      rightRows := rightRows ?i @ [Some (0, 1, 1), Some (1, 1, 1)]\<rparr>)"
    by (rule fillRows_rows) (simp add: rows_iter_def)
  have fuel: "pull grow 5 = pull grow (Suc (Suc (Suc (Suc (Suc 0)))))"
    by (simp add: eval_nat_numeral)
  show "run_join grow 5 [[VText ''a''], [VText ''b'']]
     (Inr (rows_iter [None, None]))
     (Inr (rows_iter [Some (0, 1, 1), Some (1, 1, 1)]))
   = ([([VText ''a''], [VText ''a'']), ([VText ''a''], [VText ''a''])], Some EOF)"
    using fill
    by (simp add: run_join_def CrossJoin_RowIter_def Node_RowIter_def fuel Next_def
          Next_emit_def RowIter_Next_def rows_iter_def go_append_def
          slice_read_def slice_len_def Let_def nth_append)
  show "product_rows [[VText ''a''], [VText ''b'']] [None, None]
          [Some (0, 1, 1), Some (1, 1, 1)]
        = [[VText ''a''], [VText ''b''], [VText ''a''], [VText ''b'']]"
    by (simp add: product_rows_def slice_read_def)
qed

text \<open>
  Claim C4. \<open>Close\<close> first closes the left iterator and then the right one, each exactly
  once, whatever the left close returns: these are the two calls it adds to the log, in
  this order. It returns the error of the left close when there is one, and the result
  of the right close otherwise.
\<close>

theorem Close_closes_both:
  "Close i log =
     ((case close_err (li i) of Some err \<Rightarrow> Some err | None \<Rightarrow> close_err (ri i)),
      log @ [CloseCall LeftChild, CloseCall RightChild])"
  by (simp add: Close_def RowIter_Close_def split: option.splits)

text \<open>
  Claim C8 does not hold of the code. When the right child's \<open>RowIter()\<close> fails after
  the left child's has succeeded, \<open>CrossJoin.RowIter\<close> returns the error at once: the
  calls it has made are the two \<open>RowIter()\<close> calls, and the left iterator it obtained is
  never closed.
\<close>

theorem RowIter_right_failure_leaves_left_open:
  "CrossJoin_RowIter (Inr lit) (Inl err) [] =
     (Inl err, [RowIterCall LeftChild, RowIterCall RightChild]) \<and>
   CloseCall LeftChild \<notin> set (snd (CrossJoin_RowIter (Inr lit) (Inl err) []))"
  by (simp add: CrossJoin_RowIter_def Node_RowIter_def)

section \<open>Properties of the expressions\<close>

subsection \<open>IsBinary\<close>

lemma IndexByte_lower: "- 1 \<le> IndexByte bs c"
  by (induction bs) (auto simp: Let_def)

lemma IndexByte_absent: "IndexByte bs c = - 1 \<longleftrightarrow> c \<notin> set bs"
proof (induction bs)
  case Nil
  then show ?case by simp
next
  case (Cons b bs)
  then show ?case
    using IndexByte_lower [of bs c] by (auto simp: Let_def)
qed

lemma isBinary_iff: "isBinary b \<longleftrightarrow> (\<exists>i. i < 8000 \<and> i < length b \<and> b ! i = CHR 0x00)"
proof -
  have "isBinary b \<longleftrightarrow> CHR 0x00 \<in> set (take 8000 b)"
    by (simp add: isBinary_def sniffLen_def IndexByte_absent)
  also have "\<dots> \<longleftrightarrow> (\<exists>i. i < 8000 \<and> i < length b \<and> b ! i = CHR 0x00)"
    by (auto simp: in_set_conv_nth)
  finally show ?thesis .
qed

text \<open>
  Claim C3. When the child evaluates to nil, \<open>IsBinary.Eval\<close> returns the boolean
  false. When it evaluates to another value that the Blob conversion turns into the
  bytes \<open>b\<close>, the result is the boolean that says whether a zero byte stands at one of
  the first 8000 positions of \<open>b\<close>; in particular it is false when every zero byte of
  \<open>b\<close> stands at position 8000 or later.
\<close>

theorem IsBinary_Eval_sniffs_prefix:
  "(Eval ts child row = Inr VNil \<longrightarrow> Eval ts (IsBinary child) row = Inr (VBool False)) \<and>
   (Eval ts child row = Inr v \<and> v \<noteq> VNil \<and> Blob_Convert ts v = Inr (VBlob b) \<longrightarrow>
      Eval ts (IsBinary child) row
        = Inr (VBool (\<exists>i. i < 8000 \<and> i < length b \<and> b ! i = CHR 0x00)) \<and>
      ((\<forall>i. i < length b \<and> b ! i = CHR 0x00 \<longrightarrow> 8000 \<le> i) \<longrightarrow>
         Eval ts (IsBinary child) row = Inr (VBool False)))"
proof -
  have "(\<forall>i. i < length b \<and> b ! i = CHR 0x00 \<longrightarrow> 8000 \<le> i) \<Longrightarrow>
        \<not> (\<exists>i. i < 8000 \<and> i < length b \<and> b ! i = CHR 0x00)"
    by (meson not_less)
  then show ?thesis
    by (auto simp: isBinary_iff)
qed

text \<open>
  The theorem at nil, at the bytes \<open>a, 0x00, b\<close>, at the text \<open>hello\<close>, and at 8000
  bytes \<open>a\<close> followed by a zero byte, which is at position 8000 and is not seen.
\<close>

theorem IsBinary_Eval_sniffs_prefix_witness:
  "Eval exact_types (IsBinary (literal VNil)) None = Inr (VBool False) \<and>
   Eval exact_types (IsBinary (literal (VBlob [CHR ''a'', CHR 0x00, CHR ''b'']))) None
     = Inr (VBool True) \<and>
   Eval exact_types (IsBinary (literal (VText ''hello''))) None = Inr (VBool False) \<and>
   Eval exact_types
     (IsBinary (literal (VBlob (replicate 8000 (CHR ''a'') @ [CHR 0x00])))) None
     = Inr (VBool False)"
proof -
  have t: "\<exists>i. i < 8000 \<and> i < length [CHR ''a'', CHR 0x00, CHR ''b''] \<and>
             [CHR ''a'', CHR 0x00, CHR ''b''] ! i = CHR 0x00"
    by (rule exI [of _ 1]) simp
  have f: "\<forall>i. i < length ''hello'' \<and> ''hello'' ! i = CHR 0x00 \<longrightarrow> 8000 \<le> i"
    by (simp add: nth_Cons split: nat.splits)
  have far: "\<forall>i. i < length (replicate 8000 (CHR ''a'') @ [CHR 0x00]) \<and>
                (replicate 8000 (CHR ''a'') @ [CHR 0x00]) ! i = CHR 0x00 \<longrightarrow> 8000 \<le> i"
    by (auto simp: nth_append)
  have pre: "Eval exact_types
        (literal (VBlob (replicate 8000 (CHR ''a'') @ [CHR 0x00]))) None
        = Inr (VBlob (replicate 8000 (CHR ''a'') @ [CHR 0x00])) \<and>
      VBlob (replicate 8000 (CHR ''a'') @ [CHR 0x00]) \<noteq> VNil \<and>
      Blob_Convert exact_types (VBlob (replicate 8000 (CHR ''a'') @ [CHR 0x00]))
        = Inr (VBlob (replicate 8000 (CHR ''a'') @ [CHR 0x00]))"
    by (simp add: literal_def exact_types_def)
  have beyond: "Eval exact_types
      (IsBinary (literal (VBlob (replicate 8000 (CHR ''a'') @ [CHR 0x00])))) None
      = Inr (VBool False)"
    using IsBinary_Eval_sniffs_prefix [of exact_types
        "literal (VBlob (replicate 8000 (CHR ''a'') @ [CHR 0x00]))" None
        "VBlob (replicate 8000 (CHR ''a'') @ [CHR 0x00])"
        "replicate 8000 (CHR ''a'') @ [CHR 0x00]"] far pre
    by blast
  show ?thesis
    using IsBinary_Eval_sniffs_prefix [of exact_types "literal VNil" None]
      IsBinary_Eval_sniffs_prefix [of exact_types
        "literal (VBlob [CHR ''a'', CHR 0x00, CHR ''b''])" None
        "VBlob [CHR ''a'', CHR 0x00, CHR ''b'']" "[CHR ''a'', CHR 0x00, CHR ''b'']"]
      IsBinary_Eval_sniffs_prefix [of exact_types "literal (VText ''hello'')" None
        "VText ''hello''" "''hello''"] t f beyond
    by (simp add: literal_def exact_types_def)
qed

subsection \<open>Substring\<close>

lemma char_of_bits:
  "char_of (n::nat) =
     Char (odd n) (odd (n div 2)) (odd (n div 4)) (odd (n div 8))
          (odd (n div 16)) (odd (n div 32)) (odd (n div 64)) (odd (n div 128))"
  by (simp add: char_of_def bit_iff_odd)

text \<open>
  Claim C2 does not hold of the code for every length. The test
  \<open>startIdx+length > runeCount\<close> adds two \<open>int64\<close> values and the sum can wrap
  around: on \<open>abcde\<close> with start 2 and length 9223372036854775807 the sum is negative,
  the length is not clamped, and the slice expression panics, where the claim gives
  \<open>bcde\<close>.
\<close>

lemma case_expr_nil:
  "(case ln of NilExpr \<Rightarrow> A | OtherExpr r ev \<Rightarrow> B | IsBinary c \<Rightarrow> B
      | Substring s t l \<Rightarrow> B | Year c \<Rightarrow> B) = (if ln = NilExpr then A else B)"
  by (cases ln) simp_all

text \<open>
  Signed reading of \<open>int64\<close> sums and differences: exact while the result is in range,
  off by \<open>2 ^ 64\<close> when a sum overflows.
\<close>

lemma sint_runeCount:
  "n < 2 ^ 63 \<Longrightarrow> sint (word_of_nat n :: 64 word) = int n"
proof -
  assume "n < 2 ^ 63"
  then have "int n < 2 ^ 63" by (metis of_nat_less_numeral_power_cancel_iff)
  moreover have "(word_of_nat n :: 64 word) = word_of_int (int n)" by simp
  ultimately show ?thesis
    by (simp only: sint_sbintrunc') (simp add: signed_take_bit_int_eq_self)
qed

lemma stb_overflow:
  "2 ^ 63 \<le> (k::int) \<Longrightarrow> k < 2 ^ 64 \<Longrightarrow> signed_take_bit 63 k = k - 2 ^ 64"
proof -
  assume a: "2 ^ 63 \<le> k" "k < 2 ^ 64"
  have "(k + 2 ^ 63) mod 2 ^ 64 = (k + 2 ^ 63 - 2 ^ 64) mod 2 ^ 64"
    by (metis minus_mod_self2)
  also have "\<dots> = k + 2 ^ 63 - 2 ^ 64"
    using a by (intro mod_pos_pos_trivial) simp_all
  finally show ?thesis
    by (simp add: signed_take_bit_eq_take_bit_shift take_bit_eq_mod)
qed

lemma sint_bounds64: "- (2 ^ 63) \<le> sint (a :: 64 word) \<and> sint a < 2 ^ 63"
  using sint_ge [of a] sint_lt [of a] by simp

lemma sint_add_overflow:
  "2 ^ 63 \<le> sint a + sint b \<Longrightarrow> sint (a + b :: 64 word) = sint a + sint b - 2 ^ 64"
  using sint_bounds64 [of a] sint_bounds64 [of b]
  by (simp add: sint_word_ariths stb_overflow)

lemma sint_add_in_range:
  "- (2 ^ 63) \<le> sint a + sint b \<Longrightarrow> sint a + sint b < 2 ^ 63 \<Longrightarrow>
   sint (a + b :: 64 word) = sint a + sint b"
  by (simp add: sint_word_ariths signed_take_bit_int_eq_self)

lemma sint_sub_in_range:
  "- (2 ^ 63) \<le> sint a - sint b \<Longrightarrow> sint a - sint b < 2 ^ 63 \<Longrightarrow>
   sint (a - b :: 64 word) = sint a - sint b"
  by (simp add: sint_word_ariths signed_take_bit_int_eq_self)

text \<open>
  What lines 148 to 163 compute, for a text of fewer than \<open>2 ^ 63\<close> runes (a Go slice
  has no more): the empty text outside the range, the runes from \<open>idx\<close> on, at most
  \<open>len\<close> of them, while \<open>idx + len\<close> is an \<open>int64\<close>, and a panic otherwise. The upper
  index of the slice expression is then the rune count, at most the rune count, or
  negative, so that bounding it by the length (as \<open>slice_runes\<close> does) or by the capacity
  (as Go does) is the same.
\<close>

lemma Substring_slice_cases:
  assumes n: "length text < 2 ^ 63"
  shows "Substring_slice text start len =
     (let count = int (length text);
          idx = (if sint start < 0 then count + sint start else sint start - 1)
      in if idx < 0 \<or> count \<le> idx \<or> sint len \<le> 0 then Inr (VText [])
         else if idx + sint len < 2 ^ 63
           then Inr (VText (string_of_runes
                  (take (nat (min (sint len) (count - idx))) (drop (nat idx) text))))
           else Inl (Panic ''slice bounds out of range''))"
proof -
  define rc :: "64 word" where "rc = word_of_nat (length text)"
  define count where "count = int (length text)"
  define si :: "64 word" where "si = (if sint start < 0 then rc + start else start - 1)"
  define idx where "idx = (if sint start < 0 then count + sint start else sint start - 1)"
  have rc: "sint rc = count"
    using n by (simp add: rc_def count_def sint_runeCount)
  have c0: "0 \<le> count" "count < 2 ^ 63"
    using n by (simp_all add: count_def)
  have si: "sint si = idx"
  proof (cases "sint start < 0")
    case True
    then show ?thesis
      using sint_bounds64 [of start] c0 rc
      by (simp add: si_def idx_def sint_add_in_range)
  next
    case False
    then show ?thesis
      using sint_bounds64 [of start] sint_sub_in_range [of start 1]
      by (simp add: si_def idx_def)
  qed
  have unfold: "Substring_slice text start len =
     (if idx < 0 \<or> count \<le> idx \<or> sint len \<le> 0 then Inr (VText [])
      else (case slice_runes text idx
                   (sint (si + (if count < sint (si + len) then rc - si else len))) of
              Inl err \<Rightarrow> Inl err
            | Inr rs \<Rightarrow> Inr (VText (string_of_runes rs))))"
    using rc si
    by (simp add: Substring_slice_def Let_def rc_def [symmetric] si_def [symmetric] not_less)
  show ?thesis
  proof (cases "idx < 0 \<or> count \<le> idx \<or> sint len \<le> 0")
    case True
    then show ?thesis
      by (simp add: unfold Let_def count_def [symmetric] idx_def [symmetric])
  next
    case False
    then have r: "0 \<le> idx" "idx < count" "0 < sint len" by auto
    show ?thesis
    proof (cases "idx + sint len < 2 ^ 63")
      case small: True
      then have s: "sint (si + len) = idx + sint len"
        using r si by (simp add: sint_add_in_range)
      show ?thesis
      proof (cases "count < idx + sint len")
        case True
        have d: "sint (rc - si) = count - idx"
          using r c0 rc si by (simp add: sint_sub_in_range)
        have "sint (si + (rc - si)) = count"
          using rc by simp
        then show ?thesis
          using True False small s r
          by (simp add: unfold Let_def count_def [symmetric] idx_def [symmetric]
                slice_runes_def min_def)
      next
        case le: False
        then show ?thesis
          using False small s r
          by (simp add: unfold Let_def count_def [symmetric] idx_def [symmetric]
                slice_runes_def min_def)
      qed
    next
      case big: False
      then have "sint (si + len) = idx + sint len - 2 ^ 64"
        using si by (simp add: sint_add_overflow)
      moreover have "sint len < 2 ^ 63"
        using sint_bounds64 [of len] by simp
      ultimately have neg: "sint (si + len) < 0"
        using c0 r by simp
      then have "\<not> count < sint (si + len)"
        using c0 by simp
      then show ?thesis
        using False big neg r
        by (simp add: unfold Let_def count_def [symmetric] idx_def [symmetric]
              slice_runes_def)
    qed
  qed
qed

lemma Substring_Eval_cases:
  assumes "Eval ts str row = Inr sv" and "Substring_text sv = Inr (Some text)"
    and "Eval ts start row = Inr stv" and "Int64_Convert ts stv = Inr (VInt64 st)"
    and "(ln = NilExpr \<and> n = word_of_nat (length text)) \<or>
         (ln \<noteq> NilExpr \<and> (\<exists>lv. Eval ts ln row = Inr lv \<and> Int64_Convert ts lv = Inr (VInt64 n)))"
    and "length text < 2 ^ 63"
  shows "Eval ts (Substring str start ln) row =
     (let count = int (length text);
          idx = (if sint st < 0 then count + sint st else sint st - 1)
      in if idx < 0 \<or> count \<le> idx \<or> sint n \<le> 0 then Inr (VText [])
         else if idx + sint n < 2 ^ 63
           then Inr (VText (string_of_runes
                  (take (nat (min (sint n) (count - idx))) (drop (nat idx) text))))
           else Inl (Panic ''slice bounds out of range''))"
proof -
  have "Eval ts (Substring str start ln) row = Substring_slice text st n"
    using assms(1-5) by (auto simp: case_expr_nil assert_int64_def)
  then show ?thesis
    by (simp only: Substring_slice_cases [OF assms(6)])
qed

text \<open>
  The examples of the specification on \<open>abcde\<close>, and one with a character of two bytes.
\<close>

lemma Substring_examples:
  "Eval exact_types (Substring (literal (VText ''abcde'')) (literal (VInt64 2))
      (literal (VInt64 3))) None = Inr (VText ''bcd'')"
  "Eval exact_types (Substring (literal (VText ''abcde'')) (literal (VInt64 (- 1)))
      NilExpr) None = Inr (VText ''e'')"
  "Eval exact_types (Substring (literal (VText ''abcde'')) (literal (VInt64 (- 2)))
      (literal (VInt64 1))) None = Inr (VText ''d'')"
  "Eval exact_types (Substring (literal (VText ''abcde'')) (literal (VInt64 0))
      (literal (VInt64 3))) None = Inr (VText '''')"
  "Eval exact_types (Substring (literal (VText ''abcde'')) (literal (VInt64 1))
      (literal (VInt64 100))) None = Inr (VText ''abcde'')"
  "Eval exact_types (Substring (literal (VText [CHR 0xC3, CHR 0xA1, CHR ''b'', CHR ''c'']))
      (literal (VInt64 1)) (literal (VInt64 2))) None = Inr (VText [CHR 0xC3, CHR 0xA1, CHR ''b''])"
  by (simp_all add: literal_def exact_types_def Substring_text_def assert_int64_def
        Substring_slice_def slice_runes_def Let_def string_of_runes_def encode_rune_def
        char_of_bits byte_in_def)

theorem Substring_Eval_length_overflow_panics:
  "Eval exact_types
     (Substring (literal (VText ''abcde'')) (literal (VInt64 2))
        (literal (VInt64 9223372036854775807))) None
   = Inl (Panic ''slice bounds out of range'')"
  by (simp add: literal_def exact_types_def Substring_text_def assert_int64_def
        Substring_slice_def slice_runes_def Let_def)

text \<open>
  Claim C10. When the \<open>str\<close> child evaluates to nil, \<open>Substring.Eval\<close> returns nil
  whatever the \<open>start\<close> and \<open>len\<close> children are, also when their evaluation or their
  conversion would fail or panic: the result does not depend on them, as they are not
  evaluated.
\<close>

theorem Substring_Eval_nil_str:
  "Eval ts str row = Inr VNil \<Longrightarrow> Eval ts (Substring str start ln) row = Inr VNil"
  by (simp add: Substring_text_def)

text \<open>
  The theorem with a \<open>start\<close> child whose evaluation fails and a \<open>len\<close> child whose
  conversion fails.
\<close>

theorem Substring_Eval_nil_str_witness:
  "Eval exact_types
     (Substring (literal VNil)
        (OtherExpr True (\<lambda>row. Inl (ErrOther ''start fails'')))
        (literal (VText ''not a number''))) None = Inr VNil"
  using Substring_Eval_nil_str [of exact_types "literal VNil" None
    "OtherExpr True (\<lambda>row. Inl (ErrOther ''start fails''))" "literal (VText ''not a number'')"]
  by (simp add: literal_def)

lemma Substring_text_error:
  "Substring_text v = Inl err \<Longrightarrow> \<exists>t. err = ErrInvalidType t"
  by (cases v) (auto simp: Substring_text_def)

lemma assert_int64_error:
  "assert_int64 v = Inl err \<Longrightarrow> \<exists>m. err = Panic m"
  by (cases v) (auto simp: assert_int64_def)

lemma Substring_slice_error:
  "Substring_slice text start len = Inl err \<Longrightarrow> \<exists>m. err = Panic m"
  by (auto simp: Substring_slice_def slice_runes_def Let_def split: if_splits)

lemma Substring_Eval_error_origin:
  assumes "Eval ts (Substring str start ln) row = Inl err"
  shows "Eval ts str row = Inl err \<or> Eval ts start row = Inl err \<or>
         (ln \<noteq> NilExpr \<and> Eval ts ln row = Inl err) \<or>
         (\<exists>v. Int64_Convert ts v = Inl err) \<or>
         (\<exists>t. err = ErrInvalidType t) \<or> (\<exists>m. err = Panic m)"
  using assms
  by (auto simp: case_expr_nil split: sum.splits option.splits if_splits
        dest: Substring_text_error assert_int64_error Substring_slice_error)

text \<open>
  Claim C5. \<open>NewSubstring\<close> takes only the arguments, no row: with a number of
  arguments other than 2 or 3 it returns the arity error and no expression. With 2 or 3
  arguments it returns an expression, the \<open>Substring\<close> of its arguments in their order
  (with a nil \<open>len\<close> when there are two), and the evaluation of this expression returns
  an arity error only when the evaluation of an argument or the Int64 conversion does.
\<close>

theorem NewSubstring_arity:
  "(length args \<noteq> 2 \<and> length args \<noteq> 3 \<longrightarrow>
      NewSubstring args = Inl (ErrInvalidArgumentNumber ''2 or 3'' (length args))) \<and>
   (length args = 2 \<or> length args = 3 \<longrightarrow>
      (\<exists>e. NewSubstring args = Inr e \<and>
         e = Substring (args ! 0) (args ! 1) (if length args = 2 then NilExpr else args ! 2) \<and>
         ((\<forall>x \<in> set args. Eval ts x row \<noteq> Inl (ErrInvalidArgumentNumber a n)) \<and>
          (\<forall>v. Int64_Convert ts v \<noteq> Inl (ErrInvalidArgumentNumber a n)) \<longrightarrow>
          Eval ts e row \<noteq> Inl (ErrInvalidArgumentNumber a n))))"
proof (intro conjI impI)
  assume "length args \<noteq> 2 \<and> length args \<noteq> 3"
  then show "NewSubstring args = Inl (ErrInvalidArgumentNumber ''2 or 3'' (length args))"
    by (simp add: NewSubstring_def)
next
  assume "length args = 2 \<or> length args = 3"
  then consider x y where "args = [x, y]" | x y z where "args = [x, y, z]"
    by (auto simp: length_Suc_conv numeral_2_eq_2 numeral_3_eq_3)
  then show "\<exists>e. NewSubstring args = Inr e \<and>
         e = Substring (args ! 0) (args ! 1) (if length args = 2 then NilExpr else args ! 2) \<and>
         ((\<forall>x \<in> set args. Eval ts x row \<noteq> Inl (ErrInvalidArgumentNumber a n)) \<and>
          (\<forall>v. Int64_Convert ts v \<noteq> Inl (ErrInvalidArgumentNumber a n)) \<longrightarrow>
          Eval ts e row \<noteq> Inl (ErrInvalidArgumentNumber a n))"
  proof cases
    case 1
    then have "NewSubstring args = Inr (Substring x y NilExpr)"
      by (simp add: NewSubstring_def)
    moreover have "(\<forall>x \<in> set args. Eval ts x row \<noteq> Inl (ErrInvalidArgumentNumber a n)) \<and>
          (\<forall>v. Int64_Convert ts v \<noteq> Inl (ErrInvalidArgumentNumber a n)) \<longrightarrow>
          Eval ts (Substring x y NilExpr) row \<noteq> Inl (ErrInvalidArgumentNumber a n)"
      using Substring_Eval_error_origin [of ts x y NilExpr row "ErrInvalidArgumentNumber a n"] 1
      by auto
    moreover have "Substring x y NilExpr
        = Substring (args ! 0) (args ! 1) (if length args = 2 then NilExpr else args ! 2)"
      using 1 by simp
    ultimately show ?thesis by blast
  next
    case 2
    then have "NewSubstring args = Inr (Substring x y z)"
      by (simp add: NewSubstring_def)
    moreover have "(\<forall>x \<in> set args. Eval ts x row \<noteq> Inl (ErrInvalidArgumentNumber a n)) \<and>
          (\<forall>v. Int64_Convert ts v \<noteq> Inl (ErrInvalidArgumentNumber a n)) \<longrightarrow>
          Eval ts (Substring x y z) row \<noteq> Inl (ErrInvalidArgumentNumber a n)"
      using Substring_Eval_error_origin [of ts x y z row "ErrInvalidArgumentNumber a n"] 2
      by auto
    moreover have "Substring x y z
        = Substring (args ! 0) (args ! 1) (if length args = 2 then NilExpr else args ! 2)"
      using 2 by simp
    ultimately show ?thesis by blast
  qed
qed

text \<open>The theorem at one, four, two and three arguments.\<close>

theorem NewSubstring_arity_witness:
  "NewSubstring [literal (VText ''abcde'')]
     = Inl (ErrInvalidArgumentNumber ''2 or 3'' 1) \<and>
   NewSubstring [literal (VText ''abcde''), literal (VInt64 1), literal (VInt64 2),
                 literal (VInt64 3)]
     = Inl (ErrInvalidArgumentNumber ''2 or 3'' 4) \<and>
   (\<exists>e. NewSubstring [literal (VText ''abcde''), literal (VInt64 2)] = Inr e \<and>
        Eval exact_types e None \<noteq> Inl (ErrInvalidArgumentNumber ''2 or 3'' 2)) \<and>
   (\<exists>e. NewSubstring [literal (VText ''abcde''), literal (VInt64 2), literal (VInt64 3)]
          = Inr e \<and>
        Eval exact_types e None \<noteq> Inl (ErrInvalidArgumentNumber ''2 or 3'' 3))"
proof -
  have c: "\<forall>v. Int64_Convert exact_types v \<noteq> Inl (ErrInvalidArgumentNumber a n)" for a n
    by (simp add: exact_types_def split: Value.splits)
  show ?thesis
    using NewSubstring_arity [of "[literal (VText ''abcde'')]"]
      NewSubstring_arity [of "[literal (VText ''abcde''), literal (VInt64 1),
        literal (VInt64 2), literal (VInt64 3)]"]
      NewSubstring_arity [of "[literal (VText ''abcde''), literal (VInt64 2)]"
        exact_types None "''2 or 3''" 2]
      NewSubstring_arity [of "[literal (VText ''abcde''), literal (VInt64 2),
        literal (VInt64 3)]" exact_types None "''2 or 3''" 3]
      c
    by (simp add: literal_def)
qed

text \<open>
  Claim C9 does not hold of the code. \<open>Substring.Resolved\<close> returns true without
  looking at the children: a \<open>Substring\<close> whose \<open>str\<close> child is not resolved is
  reported as resolved.
\<close>

theorem Substring_Resolved_ignores_children:
  "Resolved (Substring (OtherExpr False ev) (literal (VInt64 1)) NilExpr) = Inr True \<and>
   Resolved (OtherExpr False ev) = Inr False"
  by simp

subsection \<open>Year\<close>

text \<open>
  Claim C6. When the child evaluates to nil, \<open>Year.Eval\<close> returns nil. When it
  evaluates to another value that the Date conversion turns into the timestamp \<open>t\<close>,
  the result is the year of \<open>t\<close> converted to \<open>int32\<close>, whose signed value is that year
  whenever the year is in the \<open>int32\<close> range. When the Date conversion fails, its error
  is returned.
\<close>

theorem Year_Eval_year_of_date:
  "(Eval ts child row = Inr VNil \<longrightarrow> Eval ts (Year child) row = Inr VNil) \<and>
   (Eval ts child row = Inr v \<and> v \<noteq> VNil \<and> Date_Convert ts v = Inr (VTime t) \<longrightarrow>
      Eval ts (Year child) row = Inr (VInt32 (word_of_int (Time_Year t))) \<and>
      (- (2 ^ 31) \<le> Time_Year t \<and> Time_Year t < 2 ^ 31 \<longrightarrow>
         sint (word_of_int (Time_Year t) :: 32 word) = Time_Year t)) \<and>
   (Eval ts child row = Inr v \<and> v \<noteq> VNil \<and> Date_Convert ts v = Inl err \<longrightarrow>
      Eval ts (Year child) row = Inl err)"
  by (auto simp: signed_take_bit_int_eq_self sint_sbintrunc')

text \<open>
  The theorem at nil, at the date 2021-07-04 and at a text that is no date.
\<close>

theorem Year_Eval_year_of_date_witness:
  "Eval exact_types (Year (literal VNil)) None = Inr VNil \<and>
   Eval exact_types (Year (literal (VTime (Time 2021 7 4)))) None = Inr (VInt32 2021) \<and>
   sint (2021 :: 32 word) = 2021 \<and>
   Eval exact_types (Year (literal (VText ''not a date''))) None
     = Inl (ErrOther ''cannot convert to date'')"
  using Year_Eval_year_of_date [of exact_types "literal VNil" None]
    Year_Eval_year_of_date [of exact_types "literal (VTime (Time 2021 7 4))" None
      "VTime (Time 2021 7 4)" "Time 2021 7 4"]
    Year_Eval_year_of_date [of exact_types "literal (VText ''not a date'')" None
      "VText ''not a date''" _ "ErrOther ''cannot convert to date''"]
  by (simp add: literal_def exact_types_def)

section \<open>Rewriting with the identity\<close>

lemma TransformUp_Substring_len:
  "ln \<noteq> NilExpr \<Longrightarrow>
   TransformUp f (Substring str start ln) =
     (case TransformUp f str of
        Inl err \<Rightarrow> Inl err
      | Inr a \<Rightarrow>
          (case TransformUp f start of
             Inl err \<Rightarrow> Inl err
           | Inr b \<Rightarrow>
               (case TransformUp f ln of
                  Inl err \<Rightarrow> Inl err
                | Inr c \<Rightarrow>
                    Inr (f (case NewSubstring [a, b, c] of
                              Inl err \<Rightarrow> NilExpr | Inr sub \<Rightarrow> sub)))))"
  by (cases ln; hypsubst; simp)

lemma no_nil_child_Substring:
  "no_nil_child (Substring str start ln) \<longleftrightarrow>
     no_nil_child str \<and> no_nil_child start \<and> (ln = NilExpr \<or> no_nil_child ln)"
  by (cases ln) simp_all

lemma TransformUp_identity_expr:
  "no_nil_child e \<Longrightarrow> TransformUp (\<lambda>x. x) e = Inr e"
proof (induction e)
  case NilExpr
  then show ?case by simp
next
  case (OtherExpr r ev)
  show ?case by simp
next
  case (IsBinary e)
  then show ?case by (simp add: NewIsBinary_def)
next
  case (Substring str start ln)
  from Substring.prems have w: "no_nil_child str" "no_nil_child start"
    "ln = NilExpr \<or> no_nil_child ln"
    by (simp_all only: no_nil_child_Substring)
  have a: "TransformUp (\<lambda>x. x) str = Inr str" "TransformUp (\<lambda>x. x) start = Inr start"
    using w Substring.IH by blast+
  show ?case
  proof (cases "ln = NilExpr")
    case True
    then show ?thesis
      using a by (simp add: NewSubstring_def)
  next
    case False
    with w have "TransformUp (\<lambda>x. x) ln = Inr ln"
      using Substring.IH(3) by blast
    then show ?thesis
      using a by (simp only: TransformUp_Substring_len [OF False] NewSubstring_def) simp
  qed
next
  case (Year e)
  then show ?case by (simp add: NewYear_def)
qed

lemma TransformUp_identity_node: "Node_TransformUp (\<lambda>n. n) p = p"
  by (induction p) (simp_all add: NewCrossJoin_def)

text \<open>
  Claim C7. \<open>TransformUp\<close> with the identity function returns a tree equal to the
  original, for every expression tree in which each child that the code dereferences is
  an expression, and for every plan tree: the same variants, the same children in the
  same order, and a \<open>Substring\<close> keeps its \<open>len\<close> (nil or not), hence its arity.
\<close>

theorem TransformUp_identity:
  "(no_nil_child e \<longrightarrow> TransformUp (\<lambda>x. x) e = Inr e) \<and>
   Node_TransformUp (\<lambda>n. n) p = p"
  by (simp add: TransformUp_identity_expr TransformUp_identity_node)

text \<open>
  The theorem at an expression tree with a three-argument \<open>Substring\<close> that holds a
  two-argument one, and at a plan tree of two cross joins.
\<close>

theorem TransformUp_identity_witness:
  "TransformUp (\<lambda>x. x)
     (Substring (IsBinary (literal (VText ''a'')))
        (Substring (literal (VText ''b'')) (literal (VInt64 1)) NilExpr)
        (Year (literal VNil)))
   = Inr (Substring (IsBinary (literal (VText ''a'')))
        (Substring (literal (VText ''b'')) (literal (VInt64 1)) NilExpr)
        (Year (literal VNil))) \<and>
   Node_TransformUp (\<lambda>n. n)
     (CrossJoin (OtherNode ''t1'') (CrossJoin (OtherNode ''t2'') (OtherNode ''t3'')))
   = CrossJoin (OtherNode ''t1'') (CrossJoin (OtherNode ''t2'') (OtherNode ''t3''))"
  using TransformUp_identity [of
    "Substring (IsBinary (literal (VText ''a'')))
        (Substring (literal (VText ''b'')) (literal (VInt64 1)) NilExpr)
        (Year (literal VNil))"
    "CrossJoin (OtherNode ''t1'') (CrossJoin (OtherNode ''t2'') (OtherNode ''t3''))"]
  by (simp add: literal_def)

end
